theory Spec2Isabelle
  imports Main
begin

section \<open>The users route: cache-aside reads, transactional writes\<close>

text \<open>
  A shallow embedding of the users route handler (\<^verbatim>\<open>GET\<close> and \<^verbatim>\<open>POST\<close> of
  \<^verbatim>\<open>/users\<close>, with its helpers \<^verbatim>\<open>readUsers\<close> and \<^verbatim>\<open>writeUsers\<close>).
  The handler talks to two external collaborators, a PostgreSQL pool and a Redis client.
  Both are part of the state that every function takes and returns: the Redis keyspace,
  the committed rows of the \<^verbatim>\<open>users\<close> table, the transaction that is open on the
  connection in use, and the list of calls issued so far, each with its outcome.
  Whether a call is rejected is decided by the state as well (a function of the calls so
  far and of the call), so every theorem below holds for every pattern of failures of the
  two collaborators. One request is run at a time.
\<close>

subsection \<open>Types\<close>

text \<open>
  \<^verbatim>\<open>interface User { id: string; name: string; email: string; age: number; }\<close>
  The field \<^verbatim>\<open>id\<close> is written \<open>id'\<close>, since \<open>id\<close> is the identity function of HOL.
  Ages are integers (the column is \<^verbatim>\<open>INTEGER\<close>).
\<close>

record user =
  id' :: string
  name :: string
  email :: string
  age :: int

text \<open>
  JSON values, as \<^verbatim>\<open>JSON.parse\<close> returns them and \<^verbatim>\<open>NextResponse.json\<close> takes them.
  An object is the list of its properties in enumeration order. Numbers are integers.
\<close>

datatype json =
    JNull
  | JBool bool
  | JNum int
  | JStr string
  | JArr "json list"
  | JObj "(string \<times> json) list"

text \<open>A row as the JavaScript object the driver returns, and an array of rows.\<close>

definition user_json :: "user \<Rightarrow> json" where
  "user_json u =
     JObj [(''id'', JStr (id' u)), (''name'', JStr (name u)),
           (''email'', JStr (email u)), (''age'', JNum (age u))]"

definition users_json :: "user list \<Rightarrow> json" where
  "users_json rows = JArr (map user_json rows)"

text \<open>
  The two functions of the JavaScript runtime that the handler calls. They are parameters
  of the model: \<open>JSON_parse\<close> gives \<open>None\<close> where \<^verbatim>\<open>JSON.parse\<close> throws.
\<close>

record runtime =
  JSON_parse :: "string \<Rightarrow> json option"
  JSON_stringify :: "json \<Rightarrow> string"

text \<open>What \<^verbatim>\<open>NextResponse.json(body, { status })\<close> builds; the status defaults to 200.\<close>

record response =
  status :: nat
  body :: json

text \<open>
  The request body of \<^verbatim>\<open>POST\<close> as \<^verbatim>\<open>req.json()\<close> resolves it: one user object or
  an array of user objects (\<^verbatim>\<open>const users: User[] = Array.isArray(body) ? body : [body]\<close>),
  or \<open>Unparseable\<close> where \<^verbatim>\<open>req.json()\<close> rejects. The annotation \<^verbatim>\<open>User[]\<close> is
  not checked when the code runs, so a body can parse to a value of another shape
  (\<^verbatim>\<open>null\<close>, a number, an array with an element that is no object); such bodies have no
  term here, and every statement about \<open>Parsed b\<close> is about bodies that are a user object
  or an array of user objects.
\<close>

datatype payload = Single user | Batch "user list"

datatype request = Unparseable | Parsed payload

subsection \<open>The external calls\<close>

text \<open>
  The SQL statements sent on the transaction's connection: \<^verbatim>\<open>BEGIN\<close>, the
  \<^verbatim>\<open>INSERT ... ON CONFLICT (id) DO UPDATE\<close> with the four fields of a user as its
  parameters, \<^verbatim>\<open>COMMIT\<close> and \<^verbatim>\<open>ROLLBACK\<close>.
\<close>

datatype stmt = Begin | Upsert user | Commit | Rollback

text \<open>
  Every call the handler makes on the Redis client (\<^verbatim>\<open>redis.get\<close>, \<^verbatim>\<open>redis.set\<close>
  with \<^verbatim>\<open>"EX"\<close> and a number of seconds, \<^verbatim>\<open>redis.del\<close>), on the pool
  (\<^verbatim>\<open>pool.query\<close> with the \<^verbatim>\<open>SELECT\<close>, \<^verbatim>\<open>pool.connect\<close>) and on the connection
  (\<^verbatim>\<open>client.query\<close>, \<^verbatim>\<open>client.release\<close>).
\<close>

datatype call =
    RedisGet string
  | RedisSet string string nat
  | RedisDel string
  | PoolQuery
  | PoolConnect
  | ClientQuery stmt
  | ClientRelease

datatype outcome = Resolved | Rejected

type_synonym event = "call \<times> outcome"

text \<open>The calls that reach the persistent store.\<close>

fun is_store_call :: "call \<Rightarrow> bool" where
  "is_store_call (RedisGet k) = False"
| "is_store_call (RedisSet k v t) = False"
| "is_store_call (RedisDel k) = False"
| "is_store_call PoolQuery = True"
| "is_store_call PoolConnect = True"
| "is_store_call (ClientQuery q) = True"
| "is_store_call ClientRelease = True"

record world =
  redis :: "string \<Rightarrow> (string \<times> nat option) option"
  table :: "user list"
  txn :: "user list option"
  trace :: "event list"
  rejects :: "event list \<Rightarrow> call \<Rightarrow> bool"

text \<open>
  \<open>redis w k\<close> is the value under key \<open>k\<close> with its time-to-live in seconds, if the key
  is present. \<open>table w\<close> holds the committed rows, in the order in which the \<^verbatim>\<open>SELECT\<close>
  returns them. \<open>txn w\<close> is the view of the table inside the open transaction.
  \<open>trace w\<close> lists the calls issued, oldest first. \<open>rejects w h c\<close> says that the
  call \<open>c\<close>, issued after the calls \<open>h\<close>, is rejected.
\<close>

definition events_since :: "world \<Rightarrow> world \<Rightarrow> event list" where
  "events_since w w' = drop (length (trace w)) (trace w')"

text \<open>The calls \<open>cs\<close>, issued one after the other from the state \<open>w\<close>, all resolve.\<close>

fun accepted :: "world \<Rightarrow> call list \<Rightarrow> bool" where
  "accepted w [] = True"
| "accepted w (c # cs) =
     (\<not> rejects w (trace w) c \<and> accepted (w\<lparr>trace := trace w @ [(c, Resolved)]\<rparr>) cs)"

subsection \<open>Promises: a result or an error, and the new state\<close>

datatype js_error = SyntaxError | CallFailed call

type_synonym 'a io = "world \<Rightarrow> (js_error + 'a) \<times> world"

definition return_io :: "'a \<Rightarrow> 'a io" where
  "return_io x w = (Inr x, w)"

definition throw :: "js_error \<Rightarrow> 'a io" where
  "throw e w = (Inl e, w)"

text \<open>\<^verbatim>\<open>const x = await m; f(x)\<close>: a rejection of \<open>m\<close> skips \<open>f\<close>.\<close>

definition bind_io :: "'a io \<Rightarrow> ('a \<Rightarrow> 'b io) \<Rightarrow> 'b io" where
  "bind_io m f w = (case m w of (Inl e, w') \<Rightarrow> (Inl e, w') | (Inr x, w') \<Rightarrow> f x w')"

text \<open>\<^verbatim>\<open>try { m } catch (err) { h(err) }\<close>\<close>

definition try_catch :: "'a io \<Rightarrow> (js_error \<Rightarrow> 'a io) \<Rightarrow> 'a io" where
  "try_catch m h w = (case m w of (Inl e, w') \<Rightarrow> h e w' | (Inr x, w') \<Rightarrow> (Inr x, w'))"

text \<open>
  \<^verbatim>\<open>try { m } finally { fin }\<close>, for a \<open>fin\<close> that does not throw: it runs on both
  paths and the result of \<open>m\<close> stands.
\<close>

definition try_finally :: "'a io \<Rightarrow> (world \<Rightarrow> world) \<Rightarrow> 'a io" where
  "try_finally m fin w = (case m w of (r, w') \<Rightarrow> (r, fin w'))"

text \<open>
  A route handler is a \<^verbatim>\<open>try\<close> whose \<^verbatim>\<open>catch\<close> logs the error and returns a fixed
  response.
\<close>

definition respond :: "response io \<Rightarrow> response \<Rightarrow> world \<Rightarrow> response \<times> world" where
  "respond m fallback w = (case m w of (Inl e, w') \<Rightarrow> (fallback, w') | (Inr r, w') \<Rightarrow> (r, w'))"

text \<open>
  One call on a collaborator: it is recorded with its outcome, and takes effect only
  when it resolves.
\<close>

definition perform :: "call \<Rightarrow> (world \<Rightarrow> world) \<Rightarrow> unit io" where
  "perform c effect w =
     (if rejects w (trace w) c
      then (Inl (CallFailed c), w\<lparr>trace := trace w @ [(c, Rejected)]\<rparr>)
      else (Inr (), effect (w\<lparr>trace := trace w @ [(c, Resolved)]\<rparr>)))"

subsection \<open>The Redis client\<close>

text \<open>\<^verbatim>\<open>redis.get(key)\<close> resolves to the string under the key, or to \<^verbatim>\<open>null\<close>.\<close>

definition redis_get :: "string \<Rightarrow> string option io" where
  "redis_get k = bind_io (perform (RedisGet k) (\<lambda>w. w))
                   (\<lambda>_ w. (Inr (map_option fst (redis w k)), w))"

text \<open>\<^verbatim>\<open>redis.set(key, value, "EX", seconds)\<close>\<close>

definition redis_set :: "string \<Rightarrow> string \<Rightarrow> nat \<Rightarrow> unit io" where
  "redis_set k v seconds =
     perform (RedisSet k v seconds) (\<lambda>w. w\<lparr>redis := (redis w)(k \<mapsto> (v, Some seconds))\<rparr>)"

text \<open>\<^verbatim>\<open>redis.del(key)\<close>\<close>

definition redis_del :: "string \<Rightarrow> unit io" where
  "redis_del k = perform (RedisDel k) (\<lambda>w. w\<lparr>redis := (redis w)(k := None)\<rparr>)"

subsection \<open>The PostgreSQL pool\<close>

text \<open>
  The statement of \<^verbatim>\<open>writeUsers\<close>:
  \<^verbatim>\<open>INSERT INTO users (id, name, email, age) VALUES ($1, $2, $3, $4)
  ON CONFLICT (id) DO UPDATE SET name = EXCLUDED.name, email = EXCLUDED.email,
  age = EXCLUDED.age;\<close>
  A row with the same \<^verbatim>\<open>id\<close> gets the three other columns of the new record; with no
  such row the record is inserted.
\<close>

fun upsert :: "user \<Rightarrow> user list \<Rightarrow> user list" where
  "upsert u [] = [u]"
| "upsert u (r # rows) =
     (if id' r = id' u
      then r\<lparr>name := name u, email := email u, age := age u\<rparr> # rows
      else r # upsert u rows)"

text \<open>
  The effect of a statement that resolves. Inside a transaction a statement changes the
  transaction's view only, and \<^verbatim>\<open>COMMIT\<close> makes that view the table; with no
  transaction open a statement takes effect at once.
\<close>

fun exec_stmt :: "stmt \<Rightarrow> world \<Rightarrow> world" where
  "exec_stmt Begin w =
     (case txn w of None \<Rightarrow> w\<lparr>txn := Some (table w)\<rparr> | Some t \<Rightarrow> w)"
| "exec_stmt (Upsert u) w =
     (case txn w of
        None \<Rightarrow> w\<lparr>table := upsert u (table w)\<rparr>
      | Some t \<Rightarrow> w\<lparr>txn := Some (upsert u t)\<rparr>)"
| "exec_stmt Commit w =
     (case txn w of None \<Rightarrow> w | Some t \<Rightarrow> w\<lparr>table := t, txn := None\<rparr>)"
| "exec_stmt Rollback w = w\<lparr>txn := None\<rparr>"

text \<open>\<^verbatim>\<open>pool.connect()\<close> hands out a connection on which no transaction is open.\<close>

definition pool_connect :: "unit io" where
  "pool_connect = perform PoolConnect (\<lambda>w. w\<lparr>txn := None\<rparr>)"

text \<open>\<^verbatim>\<open>client.query(...)\<close> on that connection.\<close>

definition client_query :: "stmt \<Rightarrow> unit io" where
  "client_query q = perform (ClientQuery q) (exec_stmt q)"

text \<open>\<^verbatim>\<open>client.release()\<close> gives the connection back; it does not fail.\<close>

definition client_release :: "world \<Rightarrow> world" where
  "client_release w = w\<lparr>trace := trace w @ [(ClientRelease, Resolved)]\<rparr>"

text \<open>
  \<^verbatim>\<open>pool.query("SELECT id, name, email, age FROM users")\<close> resolves to the committed
  rows.
\<close>

definition pool_query :: "user list io" where
  "pool_query = bind_io (perform PoolQuery (\<lambda>w. w)) (\<lambda>_ w. (Inr (table w), w))"

subsection \<open>The route\<close>

definition USERS_CACHE_KEY :: string where
  "USERS_CACHE_KEY = ''users''"

definition USERS_CACHE_TTL :: nat where
  "USERS_CACHE_TTL = 60"

text \<open>
  \<^verbatim>\<open>async function readUsers(): Promise<User[]> {
    const { rows } = await pool.query<User>("SELECT id, name, email, age FROM users");
    return rows; }\<close>
\<close>

definition readUsers :: "user list io" where
  "readUsers = bind_io pool_query (\<lambda>rows. return_io rows)"

text \<open>
  The loop of \<^verbatim>\<open>writeUsers\<close>:
  \<^verbatim>\<open>for (const user of users) {
    await client.query(insertQuery, [user.id, user.name, user.email, user.age]); }\<close>
\<close>

fun upsert_all :: "user list \<Rightarrow> unit io" where
  "upsert_all [] = return_io ()"
| "upsert_all (u # us) = bind_io (client_query (Upsert u)) (\<lambda>_. upsert_all us)"

text \<open>
  \<^verbatim>\<open>async function writeUsers(users: User[]) {
    const client = await pool.connect();
    try {
      await client.query("BEGIN");
      for (const user of users) { ... }
      await client.query("COMMIT");
    } catch (err) {
      await client.query("ROLLBACK");
      throw err;
    } finally {
      client.release();
    } }\<close>
\<close>

definition writeUsers :: "user list \<Rightarrow> unit io" where
  "writeUsers users =
     bind_io pool_connect (\<lambda>_.
       try_finally
         (try_catch
            (bind_io (client_query Begin) (\<lambda>_.
             bind_io (upsert_all users) (\<lambda>_.
             client_query Commit)))
            (\<lambda>err. bind_io (client_query Rollback) (\<lambda>_. throw err)))
         client_release)"

text \<open>\<^verbatim>\<open>NextResponse.json({ error: "Failed to fetch users" }, { status: 500 })\<close>\<close>

definition fetch_failed :: response where
  "fetch_failed = \<lparr>status = 500, body = JObj [(''error'', JStr ''Failed to fetch users'')]\<rparr>"

text \<open>\<^verbatim>\<open>NextResponse.json({ error: "Failed to write users" }, { status: 500 })\<close>\<close>

definition write_failed :: response where
  "write_failed = \<lparr>status = 500, body = JObj [(''error'', JStr ''Failed to write users'')]\<rparr>"

text \<open>
  \<^verbatim>\<open>export async function GET() {
    try {
      const cached = await redis.get(USERS_CACHE_KEY);
      if (cached) { return NextResponse.json(JSON.parse(cached)); }
      const users = await readUsers();
      await redis.set(USERS_CACHE_KEY, JSON.stringify(users), "EX", USERS_CACHE_TTL);
      return NextResponse.json(users);
    } catch (err) { ... return NextResponse.json({ error: "Failed to fetch users" }, { status: 500 }); } }\<close>
  \<^verbatim>\<open>if (cached)\<close> is taken for a string that is not empty; \<^verbatim>\<open>null\<close> and the empty
  string both go on to the database.
\<close>

definition cache_miss :: "runtime \<Rightarrow> response io" where
  "cache_miss rt =
     bind_io readUsers (\<lambda>users.
     bind_io (redis_set USERS_CACHE_KEY (JSON_stringify rt (users_json users)) USERS_CACHE_TTL) (\<lambda>_.
     return_io \<lparr>status = 200, body = users_json users\<rparr>))"

definition GET :: "runtime \<Rightarrow> world \<Rightarrow> response \<times> world" where
  "GET rt =
     respond
       (bind_io (redis_get USERS_CACHE_KEY) (\<lambda>cached.
          case cached of
            None \<Rightarrow> cache_miss rt
          | Some s \<Rightarrow>
              if s \<noteq> []
              then (case JSON_parse rt s of
                      None \<Rightarrow> throw SyntaxError
                    | Some v \<Rightarrow> return_io \<lparr>status = 200, body = v\<rparr>)
              else cache_miss rt))
       fetch_failed"

text \<open>
  \<^verbatim>\<open>export async function POST(req: NextRequest) {
    try {
      const body = await req.json();
      const users: User[] = Array.isArray(body) ? body : [body];
      await writeUsers(users);
      await redis.del(USERS_CACHE_KEY);
      return NextResponse.json({ success: true, count: users.length });
    } catch (err) { ... return NextResponse.json({ error: "Failed to write users" }, { status: 500 }); } }\<close>
\<close>

definition req_json :: "request \<Rightarrow> payload io" where
  "req_json req = (case req of Unparseable \<Rightarrow> throw SyntaxError | Parsed b \<Rightarrow> return_io b)"

fun normalize :: "payload \<Rightarrow> user list" where
  "normalize (Batch us) = us"
| "normalize (Single u) = [u]"

text \<open>\<^verbatim>\<open>NextResponse.json({ success: true, count: users.length })\<close>\<close>

definition write_succeeded :: "nat \<Rightarrow> response" where
  "write_succeeded n =
     \<lparr>status = 200, body = JObj [(''success'', JBool True), (''count'', JNum (int n))]\<rparr>"

definition POST :: "request \<Rightarrow> world \<Rightarrow> response \<times> world" where
  "POST req =
     respond
       (bind_io (req_json req) (\<lambda>b.
          let users = normalize b in
          bind_io (writeUsers users) (\<lambda>_.
          bind_io (redis_del USERS_CACHE_KEY) (\<lambda>_.
          return_io (write_succeeded (length users))))))
       write_failed"

subsection \<open>Notions used in the statements\<close>

text \<open>The events of a run of upserts that all resolve.\<close>

definition upsert_events :: "user list \<Rightarrow> event list" where
  "upsert_events us = map (\<lambda>u. (ClientQuery (Upsert u), Resolved)) us"

text \<open>
  Where a transaction can fail: at \<^verbatim>\<open>BEGIN\<close>, at one of the upserts after the ones
  before it resolved, or at \<^verbatim>\<open>COMMIT\<close>. \<open>pre\<close> are the events before the rejected
  call \<open>c\<close>.
\<close>

definition failed_at :: "user list \<Rightarrow> event list \<Rightarrow> call \<Rightarrow> bool" where
  "failed_at us pre c \<longleftrightarrow>
     (pre = [] \<and> c = ClientQuery Begin)
   \<or> (\<exists>p u post. us = p @ u # post \<and>
         pre = (ClientQuery Begin, Resolved) # upsert_events p \<and> c = ClientQuery (Upsert u))
   \<or> (pre = (ClientQuery Begin, Resolved) # upsert_events us \<and> c = ClientQuery Commit)"

text \<open>How often the connection is released in a list of events.\<close>

definition releases :: "event list \<Rightarrow> nat" where
  "releases evs = length (filter (\<lambda>e. fst e = ClientRelease) evs)"

text \<open>The stored row with a given identifier, and the last record of a batch with it.\<close>

definition lookup :: "string \<Rightarrow> user list \<Rightarrow> user option" where
  "lookup i rows = find (\<lambda>r. id' r = i) rows"

definition last_with_id :: "string \<Rightarrow> user list \<Rightarrow> user option" where
  "last_with_id i us = find (\<lambda>u. id' u = i) (rev us)"

subsection \<open>Example data\<close>

definition john :: user where
  "john = \<lparr>id' = ''1'', name = ''John'', email = ''john@x.com'', age = 30\<rparr>"

definition john_updated :: user where
  "john_updated = \<lparr>id' = ''1'', name = ''John Updated'', email = ''j2@x.com'', age = 31\<rparr>"

definition jane :: user where
  "jane = \<lparr>id' = ''2'', name = ''Jane'', email = ''jane@x.com'', age = 25\<rparr>"

definition nameless :: user where
  "nameless = \<lparr>id' = [], name = ''Nobody'', email = ''nobody@x.com'', age = 40\<rparr>"

text \<open>The array that holds \<open>john\<close>, serialised.\<close>

definition john_text :: string where
  "john_text = ''[{\"id\":\"1\",\"name\":\"John\",\"email\":\"john@x.com\",\"age\":30}]''"

text \<open>An empty cache and an empty table, with collaborators that accept every call.\<close>

definition fresh :: world where
  "fresh = \<lparr>redis = Map.empty, table = [], txn = None, trace = [], rejects = (\<lambda>h c. False)\<rparr>"

text \<open>The same with \<open>john\<close> stored.\<close>

definition stocked :: world where
  "stocked = fresh\<lparr>table := [john]\<rparr>"

text \<open>The same with a snapshot in the cache that has 17 seconds left.\<close>

definition warm :: world where
  "warm = stocked\<lparr>redis := [USERS_CACHE_KEY \<mapsto> (john_text, Some 17)]\<rparr>"

text \<open>An empty table, and a snapshot of it in the cache that has 17 seconds left.\<close>

definition stale :: world where
  "stale = fresh\<lparr>redis := [USERS_CACHE_KEY \<mapsto> (''[]'', Some 17)]\<rparr>"

text \<open>
  The table with \<open>john\<close> stored and an empty cache, with collaborators that reject
  exactly the call \<open>c\<close>.
\<close>

definition failing :: "call \<Rightarrow> world" where
  "failing c = stocked\<lparr>rejects := (\<lambda>h c'. c' = c)\<rparr>"

text \<open>
  A runtime for the examples. It knows two texts, the empty array and the array that
  holds \<open>john\<close>, and the examples serialise and parse nothing else.
\<close>

definition example_runtime :: runtime where
  "example_runtime =
     \<lparr>JSON_parse = (\<lambda>s. if s = ''[]'' then Some (JArr [])
                         else if s = john_text then Some (users_json [john]) else None),
      JSON_stringify = (\<lambda>v. if v = JArr [] then ''[]''
                             else if v = users_json [john] then john_text else ''null'')\<rparr>"

section \<open>Properties\<close>

subsection \<open>One call\<close>

lemma perform_rejected:
  "rejects w (trace w) c \<Longrightarrow>
   perform c eff w = (Inl (CallFailed c), w\<lparr>trace := trace w @ [(c, Rejected)]\<rparr>)"
  by (simp add: perform_def)

lemma perform_resolved:
  "\<not> rejects w (trace w) c \<Longrightarrow>
   perform c eff w = (Inr (), eff (w\<lparr>trace := trace w @ [(c, Resolved)]\<rparr>))"
  by (simp add: perform_def)

lemma bind_perform_rejected:
  "rejects w (trace w) c \<Longrightarrow>
   bind_io (perform c eff) f w = (Inl (CallFailed c), w\<lparr>trace := trace w @ [(c, Rejected)]\<rparr>)"
  by (simp add: bind_io_def perform_def)

lemma bind_perform_resolved:
  "\<not> rejects w (trace w) c \<Longrightarrow>
   bind_io (perform c eff) f w = f () (eff (w\<lparr>trace := trace w @ [(c, Resolved)]\<rparr>))"
  by (simp add: bind_io_def perform_def)

subsection \<open>The loop of upserts\<close>

text \<open>
  Inside a transaction the loop leaves the cache and the table alone; either every
  upsert resolves and the transaction's view is the batch folded into it, or the loop
  stops at the first rejected upsert.
\<close>

lemma upsert_all_fields:
  assumes "txn w = Some t" and "upsert_all us w = (r, w')"
  shows "redis w' = redis w \<and> table w' = table w \<and> rejects w' = rejects w \<and>
         ((r = Inr () \<and> txn w' = Some (fold upsert us t) \<and>
           trace w' = trace w @ upsert_events us)
        \<or> (\<exists>pre u post t'. us = pre @ u # post \<and>
              r = Inl (CallFailed (ClientQuery (Upsert u))) \<and> txn w' = Some t' \<and>
              trace w' = trace w @ upsert_events pre @ [(ClientQuery (Upsert u), Rejected)]))"
  using assms
proof (induction us arbitrary: w t)
  case Nil
  then show ?case by (auto simp: return_io_def upsert_events_def)
next
  case (Cons u us)
  show ?case
  proof (cases "rejects w (trace w) (ClientQuery (Upsert u))")
    case True
    then have r: "r = Inl (CallFailed (ClientQuery (Upsert u)))"
      and w': "w' = w\<lparr>trace := trace w @ [(ClientQuery (Upsert u), Rejected)]\<rparr>"
      using Cons.prems(2) by (simp_all add: bind_io_def client_query_def perform_rejected)
    have "u # us = [] @ u # us \<and> r = Inl (CallFailed (ClientQuery (Upsert u))) \<and>
          txn w' = Some t \<and>
          trace w' = trace w @ upsert_events [] @ [(ClientQuery (Upsert u), Rejected)]"
      using r w' Cons.prems(1) by (simp add: upsert_events_def)
    then have "\<exists>pre v post t'. u # us = pre @ v # post \<and>
              r = Inl (CallFailed (ClientQuery (Upsert v))) \<and> txn w' = Some t' \<and>
              trace w' = trace w @ upsert_events pre @ [(ClientQuery (Upsert v), Rejected)]"
      by blast
    moreover have "redis w' = redis w \<and> table w' = table w \<and> rejects w' = rejects w"
      using w' by simp
    ultimately show ?thesis by blast
  next
    case False
    define w1 where "w1 = exec_stmt (Upsert u) (w\<lparr>trace := trace w @ [(ClientQuery (Upsert u), Resolved)]\<rparr>)"
    have step: "upsert_all us w1 = (r, w')"
      using False Cons.prems(2)
      by (simp add: bind_io_def client_query_def perform_resolved w1_def)
    have f1: "txn w1 = Some (upsert u t)" "redis w1 = redis w" "table w1 = table w"
      "rejects w1 = rejects w" "trace w1 = trace w @ [(ClientQuery (Upsert u), Resolved)]"
      using Cons.prems(1) by (simp_all add: w1_def)
    from Cons.IH[OF f1(1) step]
    have frame: "redis w' = redis w1 \<and> table w' = table w1 \<and> rejects w' = rejects w1"
      and alt: "(r = Inr () \<and> txn w' = Some (fold upsert us (upsert u t)) \<and>
           trace w' = trace w1 @ upsert_events us)
        \<or> (\<exists>pre v post t'. us = pre @ v # post \<and>
              r = Inl (CallFailed (ClientQuery (Upsert v))) \<and> txn w' = Some t' \<and>
              trace w' = trace w1 @ upsert_events pre @ [(ClientQuery (Upsert v), Rejected)])"
      by blast+
    from alt have "(r = Inr () \<and> txn w' = Some (fold upsert (u # us) t) \<and>
           trace w' = trace w @ upsert_events (u # us))
        \<or> (\<exists>pre v post t'. u # us = pre @ v # post \<and>
              r = Inl (CallFailed (ClientQuery (Upsert v))) \<and> txn w' = Some t' \<and>
              trace w' = trace w @ upsert_events pre @ [(ClientQuery (Upsert v), Rejected)])"
    proof
      assume "r = Inr () \<and> txn w' = Some (fold upsert us (upsert u t)) \<and>
           trace w' = trace w1 @ upsert_events us"
      then show ?thesis by (simp add: f1 upsert_events_def)
    next
      assume "\<exists>pre v post t'. us = pre @ v # post \<and>
              r = Inl (CallFailed (ClientQuery (Upsert v))) \<and> txn w' = Some t' \<and>
              trace w' = trace w1 @ upsert_events pre @ [(ClientQuery (Upsert v), Rejected)]"
      then obtain pre v post t' where us: "us = pre @ v # post"
        and r: "r = Inl (CallFailed (ClientQuery (Upsert v)))" and t': "txn w' = Some t'"
        and tr: "trace w' = trace w1 @ upsert_events pre @ [(ClientQuery (Upsert v), Rejected)]"
        by blast
      have "u # us = (u # pre) @ v # post" using us by simp
      moreover have "trace w' = trace w @ upsert_events (u # pre) @ [(ClientQuery (Upsert v), Rejected)]"
        using tr by (simp add: f1 upsert_events_def)
      ultimately show ?thesis using r t' by blast
    qed
    then show ?thesis using frame f1 by simp
  qed
qed

subsection \<open>The transaction\<close>

lemma transaction_fields:
  assumes "txn w = None"
    and "bind_io (client_query Begin) (\<lambda>_. bind_io (upsert_all us) (\<lambda>_. client_query Commit)) w = (r, w')"
  shows "redis w' = redis w \<and> rejects w' = rejects w \<and>
         ((r = Inr () \<and> table w' = fold upsert us (table w) \<and> txn w' = None \<and>
           trace w' = trace w @ (ClientQuery Begin, Resolved) # upsert_events us @ [(ClientQuery Commit, Resolved)])
        \<or> (\<exists>pre c. r = Inl (CallFailed c) \<and> table w' = table w \<and> failed_at us pre c \<and>
              trace w' = trace w @ pre @ [(c, Rejected)]))"
proof (cases "rejects w (trace w) (ClientQuery Begin)")
  case True
  then have "r = Inl (CallFailed (ClientQuery Begin))"
    and "w' = w\<lparr>trace := trace w @ [(ClientQuery Begin, Rejected)]\<rparr>"
    using assms(2) by (simp_all add: bind_io_def client_query_def perform_rejected)
  then have "redis w' = redis w \<and> rejects w' = rejects w \<and>
       r = Inl (CallFailed (ClientQuery Begin)) \<and> table w' = table w \<and>
       failed_at us [] (ClientQuery Begin) \<and>
       trace w' = trace w @ [] @ [(ClientQuery Begin, Rejected)]"
    by (simp add: failed_at_def)
  then show ?thesis by blast
next
  case False
  define w1 where "w1 = exec_stmt Begin (w\<lparr>trace := trace w @ [(ClientQuery Begin, Resolved)]\<rparr>)"
  have f1: "txn w1 = Some (table w)" "redis w1 = redis w" "table w1 = table w"
    "rejects w1 = rejects w" "trace w1 = trace w @ [(ClientQuery Begin, Resolved)]"
    using assms(1) by (simp_all add: w1_def)
  obtain r2 w2 where loop: "upsert_all us w1 = (r2, w2)" by (cases "upsert_all us w1")
  have "bind_io (client_query Begin) (\<lambda>_. bind_io (upsert_all us) (\<lambda>_. client_query Commit)) w
          = bind_io (upsert_all us) (\<lambda>_. client_query Commit) w1"
    using False by (simp add: client_query_def[of Begin] bind_perform_resolved w1_def)
  then have rest: "(case r2 of Inl e \<Rightarrow> (Inl e, w2) | Inr x \<Rightarrow> client_query Commit w2) = (r, w')"
    using assms(2) loop by (simp add: bind_io_def)
  from upsert_all_fields[OF f1(1) loop]
  have f2: "redis w2 = redis w" "table w2 = table w" "rejects w2 = rejects w"
    and alt: "(r2 = Inr () \<and> txn w2 = Some (fold upsert us (table w)) \<and>
           trace w2 = trace w1 @ upsert_events us)
        \<or> (\<exists>pre u post t'. us = pre @ u # post \<and>
              r2 = Inl (CallFailed (ClientQuery (Upsert u))) \<and> txn w2 = Some t' \<and>
              trace w2 = trace w1 @ upsert_events pre @ [(ClientQuery (Upsert u), Rejected)])"
    by (simp_all add: f1)
  from alt show ?thesis
  proof
    assume ok: "r2 = Inr () \<and> txn w2 = Some (fold upsert us (table w)) \<and>
           trace w2 = trace w1 @ upsert_events us"
    show ?thesis
    proof (cases "rejects w2 (trace w2) (ClientQuery Commit)")
      case True
      then have "r = Inl (CallFailed (ClientQuery Commit))"
        and "w' = w2\<lparr>trace := trace w2 @ [(ClientQuery Commit, Rejected)]\<rparr>"
        using rest ok by (simp_all add: client_query_def perform_rejected)
      then have "redis w' = redis w \<and> rejects w' = rejects w \<and>
         r = Inl (CallFailed (ClientQuery Commit)) \<and> table w' = table w \<and>
         failed_at us ((ClientQuery Begin, Resolved) # upsert_events us) (ClientQuery Commit) \<and>
         trace w' = trace w @ ((ClientQuery Begin, Resolved) # upsert_events us) @ [(ClientQuery Commit, Rejected)]"
        using ok f1 f2 by (simp add: failed_at_def)
      then show ?thesis by blast
    next
      case False
      then have "r = Inr ()"
        and "w' = exec_stmt Commit (w2\<lparr>trace := trace w2 @ [(ClientQuery Commit, Resolved)]\<rparr>)"
        using rest ok by (simp_all add: client_query_def perform_resolved)
      then have "redis w' = redis w \<and> rejects w' = rejects w \<and>
         r = Inr () \<and> table w' = fold upsert us (table w) \<and> txn w' = None \<and>
         trace w' = trace w @ (ClientQuery Begin, Resolved) # upsert_events us @ [(ClientQuery Commit, Resolved)]"
        using ok f1 f2 by simp
      then show ?thesis by blast
    qed
  next
    assume "\<exists>pre u post t'. us = pre @ u # post \<and>
              r2 = Inl (CallFailed (ClientQuery (Upsert u))) \<and> txn w2 = Some t' \<and>
              trace w2 = trace w1 @ upsert_events pre @ [(ClientQuery (Upsert u), Rejected)]"
    then obtain p u post t' where us: "us = p @ u # post"
      and r2: "r2 = Inl (CallFailed (ClientQuery (Upsert u)))"
      and tr: "trace w2 = trace w1 @ upsert_events p @ [(ClientQuery (Upsert u), Rejected)]"
      by blast
    have "r = Inl (CallFailed (ClientQuery (Upsert u)))" and "w' = w2"
      using rest r2 by simp_all
    moreover have "failed_at us ((ClientQuery Begin, Resolved) # upsert_events p) (ClientQuery (Upsert u))"
      using us by (auto simp: failed_at_def)
    ultimately have "redis w' = redis w \<and> rejects w' = rejects w \<and>
         r = Inl (CallFailed (ClientQuery (Upsert u))) \<and> table w' = table w \<and>
         failed_at us ((ClientQuery Begin, Resolved) # upsert_events p) (ClientQuery (Upsert u)) \<and>
         trace w' = trace w @ ((ClientQuery Begin, Resolved) # upsert_events p) @ [(ClientQuery (Upsert u), Rejected)]"
      using f1 f2 tr by simp
    then show ?thesis by blast
  qed
qed

lemma writeUsers_fields:
  assumes "writeUsers us w = (r, w')"
  shows "redis w' = redis w \<and> rejects w' = rejects w \<and>
         ((r = Inl (CallFailed PoolConnect) \<and> rejects w (trace w) PoolConnect \<and>
           table w' = table w \<and> trace w' = trace w @ [(PoolConnect, Rejected)])
        \<or> (r = Inr () \<and> \<not> rejects w (trace w) PoolConnect \<and>
            table w' = fold upsert us (table w) \<and>
            trace w' = trace w @ (PoolConnect, Resolved) # (ClientQuery Begin, Resolved) #
                         upsert_events us @ [(ClientQuery Commit, Resolved), (ClientRelease, Resolved)])
        \<or> (\<exists>e pre c out. r = Inl e \<and> \<not> rejects w (trace w) PoolConnect \<and>
              table w' = table w \<and> failed_at us pre c \<and>
              trace w' = trace w @ (PoolConnect, Resolved) # pre @
                           [(c, Rejected), (ClientQuery Rollback, out), (ClientRelease, Resolved)]))"
proof (cases "rejects w (trace w) PoolConnect")
  case True
  then have "r = Inl (CallFailed PoolConnect)"
    and "w' = w\<lparr>trace := trace w @ [(PoolConnect, Rejected)]\<rparr>"
    using assms by (simp_all add: writeUsers_def bind_io_def pool_connect_def perform_rejected)
  then show ?thesis using True by simp
next
  case False
  define w1 where "w1 = (w\<lparr>trace := trace w @ [(PoolConnect, Resolved)]\<rparr>)\<lparr>txn := None\<rparr>"
  have f1: "txn w1 = None" "redis w1 = redis w" "table w1 = table w"
    "rejects w1 = rejects w" "trace w1 = trace w @ [(PoolConnect, Resolved)]"
    by (simp_all add: w1_def)
  obtain r2 w2 where
    body: "bind_io (client_query Begin) (\<lambda>_. bind_io (upsert_all us) (\<lambda>_. client_query Commit)) w1 = (r2, w2)"
    by (cases "bind_io (client_query Begin) (\<lambda>_. bind_io (upsert_all us) (\<lambda>_. client_query Commit)) w1")
  have "writeUsers us w =
          try_finally
            (try_catch
              (bind_io (client_query Begin) (\<lambda>_. bind_io (upsert_all us) (\<lambda>_. client_query Commit)))
              (\<lambda>err. bind_io (client_query Rollback) (\<lambda>_. throw err)))
            client_release w1"
    using False by (simp add: writeUsers_def pool_connect_def bind_perform_resolved w1_def)
  then have rest: "(case r2 of
                 Inl e \<Rightarrow> (case bind_io (client_query Rollback) (\<lambda>_. throw e) w2 of
                            (r3, w3) \<Rightarrow> (r3, client_release w3))
               | Inr x \<Rightarrow> (Inr x, client_release w2)) = (r, w')"
    using assms body by (simp add: try_finally_def try_catch_def split: sum.splits)
  from transaction_fields[OF f1(1) body]
  have f2: "redis w2 = redis w" "rejects w2 = rejects w"
    and alt: "(r2 = Inr () \<and> table w2 = fold upsert us (table w) \<and> txn w2 = None \<and>
           trace w2 = trace w1 @ (ClientQuery Begin, Resolved) # upsert_events us @ [(ClientQuery Commit, Resolved)])
        \<or> (\<exists>pre c. r2 = Inl (CallFailed c) \<and> table w2 = table w \<and> failed_at us pre c \<and>
              trace w2 = trace w1 @ pre @ [(c, Rejected)])"
    by (simp_all add: f1)
  from alt show ?thesis
  proof
    assume ok: "r2 = Inr () \<and> table w2 = fold upsert us (table w) \<and> txn w2 = None \<and>
           trace w2 = trace w1 @ (ClientQuery Begin, Resolved) # upsert_events us @ [(ClientQuery Commit, Resolved)]"
    then have "r = Inr ()" and "w' = client_release w2"
      using rest by simp_all
    then show ?thesis using ok f1 f2 False by (simp add: client_release_def)
  next
    assume "\<exists>pre c. r2 = Inl (CallFailed c) \<and> table w2 = table w \<and> failed_at us pre c \<and>
              trace w2 = trace w1 @ pre @ [(c, Rejected)]"
    then obtain pre c where r2: "r2 = Inl (CallFailed c)" and t2: "table w2 = table w"
      and fa: "failed_at us pre c" and tr: "trace w2 = trace w1 @ pre @ [(c, Rejected)]"
      by blast
    show ?thesis
    proof (cases "rejects w2 (trace w2) (ClientQuery Rollback)")
      case True
      then have "r = Inl (CallFailed (ClientQuery Rollback))"
        and "w' = client_release (w2\<lparr>trace := trace w2 @ [(ClientQuery Rollback, Rejected)]\<rparr>)"
        using rest r2 by (simp_all add: client_query_def bind_perform_rejected)
      then have "r = Inl (CallFailed (ClientQuery Rollback)) \<and> \<not> rejects w (trace w) PoolConnect \<and>
              table w' = table w \<and> failed_at us pre c \<and>
              trace w' = trace w @ (PoolConnect, Resolved) # pre @
                           [(c, Rejected), (ClientQuery Rollback, Rejected), (ClientRelease, Resolved)]"
        and "redis w' = redis w \<and> rejects w' = rejects w"
        using f1 f2 t2 fa tr False by (simp_all add: client_release_def)
      then show ?thesis by blast
    next
      case rb: False
      then have "r = Inl (CallFailed c)"
        and "w' = client_release (exec_stmt Rollback (w2\<lparr>trace := trace w2 @ [(ClientQuery Rollback, Resolved)]\<rparr>))"
        using rest r2 by (simp_all add: client_query_def bind_perform_resolved throw_def)
      then have "r = Inl (CallFailed c) \<and> \<not> rejects w (trace w) PoolConnect \<and>
              table w' = table w \<and> failed_at us pre c \<and>
              trace w' = trace w @ (PoolConnect, Resolved) # pre @
                           [(c, Rejected), (ClientQuery Rollback, Resolved), (ClientRelease, Resolved)]"
        and "redis w' = redis w \<and> rejects w' = rejects w"
        using f1 f2 t2 fa tr False by (simp_all add: client_release_def)
      then show ?thesis by blast
    qed
  qed
qed

subsection \<open>Rows by identifier\<close>

lemma overwrite_row:
  fixes r u :: user
  shows "id' r = id' u \<Longrightarrow> r\<lparr>name := name u, email := email u, age := age u\<rparr> = u"
  by (cases r, cases u) simp

lemma lookup_upsert:
  "lookup i (upsert u rows) = (if id' u = i then Some u else lookup i rows)"
  by (induction rows) (auto simp: lookup_def overwrite_row)

lemma find_snoc:
  "find P (xs @ [x]) = (case find P xs of Some y \<Rightarrow> Some y | None \<Rightarrow> if P x then Some x else None)"
  by (induction xs) auto

lemma lookup_fold_upsert:
  "lookup i (fold upsert us rows) =
     (case last_with_id i us of Some u \<Rightarrow> Some u | None \<Rightarrow> lookup i rows)"
proof (induction us arbitrary: rows)
  case Nil
  then show ?case by (simp add: last_with_id_def)
next
  case (Cons u us)
  have "lookup i (fold upsert (u # us) rows) = lookup i (fold upsert us (upsert u rows))"
    by simp
  also have "\<dots> = (case last_with_id i us of Some v \<Rightarrow> Some v | None \<Rightarrow> lookup i (upsert u rows))"
    by (rule Cons.IH)
  also have "\<dots> = (case last_with_id i (u # us) of Some v \<Rightarrow> Some v | None \<Rightarrow> lookup i rows)"
    by (simp add: last_with_id_def find_snoc lookup_upsert split: option.splits)
  finally show ?case .
qed

lemma ids_upsert: "id' ` set (upsert u rows) = insert (id' u) (id' ` set rows)"
  by (induction rows) auto

lemma distinct_upsert:
  "distinct (map id' rows) \<Longrightarrow> distinct (map id' (upsert u rows))"
proof (induction rows)
  case Nil
  then show ?case by simp
next
  case (Cons r rows)
  show ?case
  proof (cases "id' r = id' u")
    case True
    then show ?thesis using Cons.prems by simp
  next
    case False
    have "id' r \<notin> id' ` set (upsert u rows)"
      using False Cons.prems by (simp add: ids_upsert)
    then show ?thesis using False Cons by simp
  qed
qed

lemma distinct_fold_upsert:
  "distinct (map id' rows) \<Longrightarrow> distinct (map id' (fold upsert us rows))"
  by (induction us arbitrary: rows) (simp_all add: distinct_upsert)

lemma lookup_distinct:
  "distinct (map id' rows) \<Longrightarrow> lookup i rows = Some r \<longleftrightarrow> r \<in> set rows \<and> id' r = i"
  by (induction rows) (auto simp: lookup_def)

lemma rows_fold_upsert:
  assumes "distinct (map id' rows)"
  shows "r \<in> set (fold upsert us rows) \<longleftrightarrow>
           last_with_id (id' r) us = Some r \<or>
           (last_with_id (id' r) us = None \<and> r \<in> set rows)"
proof -
  have "r \<in> set (fold upsert us rows) \<longleftrightarrow> lookup (id' r) (fold upsert us rows) = Some r"
    using lookup_distinct[OF distinct_fold_upsert[OF assms], of "id' r" us r] by simp
  also have "\<dots> \<longleftrightarrow> last_with_id (id' r) us = Some r \<or>
           (last_with_id (id' r) us = None \<and> lookup (id' r) rows = Some r)"
    by (simp add: lookup_fold_upsert split: option.splits)
  also have "\<dots> \<longleftrightarrow> last_with_id (id' r) us = Some r \<or>
           (last_with_id (id' r) us = None \<and> r \<in> set rows)"
    using lookup_distinct[OF assms, of "id' r" r] by simp
  finally show ?thesis .
qed

subsection \<open>Counting events\<close>

lemma upsert_events_resolved: "(c, Rejected) \<notin> set (upsert_events us)"
  by (auto simp: upsert_events_def)

lemma upsert_events_no_release: "(ClientRelease, out) \<notin> set (upsert_events us)"
  by (auto simp: upsert_events_def)

lemma failed_at_no_release: "failed_at us pre c \<Longrightarrow> c \<noteq> ClientRelease \<and> (ClientRelease, out) \<notin> set pre"
  by (auto simp: failed_at_def upsert_events_def)

lemma releases_upsert_events: "releases (upsert_events us) = 0"
  by (simp add: releases_def upsert_events_def)

lemma releases_append: "releases (xs @ ys) = releases xs + releases ys"
  by (simp add: releases_def)

lemma releases_Cons: "releases (e # xs) = (if fst e = ClientRelease then 1 else 0) + releases xs"
  by (simp add: releases_def)

lemma releases_Nil: "releases [] = 0"
  by (simp add: releases_def)

lemma failed_at_releases: "failed_at us pre c \<Longrightarrow> releases pre = 0 \<and> c \<noteq> ClientRelease"
  by (auto simp: failed_at_def releases_Cons releases_upsert_events releases_Nil)

subsection \<open>The read path\<close>

lemma redis_get_rejected:
  "rejects w (trace w) (RedisGet k) \<Longrightarrow>
   redis_get k w = (Inl (CallFailed (RedisGet k)), w\<lparr>trace := trace w @ [(RedisGet k, Rejected)]\<rparr>)"
  by (simp add: redis_get_def bind_perform_rejected)

lemma redis_get_resolved:
  "\<not> rejects w (trace w) (RedisGet k) \<Longrightarrow>
   redis_get k w = (Inr (map_option fst (redis w k)), w\<lparr>trace := trace w @ [(RedisGet k, Resolved)]\<rparr>)"
  by (simp add: redis_get_def bind_perform_resolved)

lemma probe_iff:
  "fst (redis_get k w) = Inr r \<longleftrightarrow>
     \<not> rejects w (trace w) (RedisGet k) \<and> map_option fst (redis w k) = r"
  by (cases "rejects w (trace w) (RedisGet k)") (simp_all add: redis_get_rejected redis_get_resolved)

lemma GET_rejected:
  assumes "rejects w (trace w) (RedisGet USERS_CACHE_KEY)"
  shows "GET rt w = (fetch_failed, w\<lparr>trace := trace w @ [(RedisGet USERS_CACHE_KEY, Rejected)]\<rparr>)"
  using assms by (simp add: GET_def respond_def bind_io_def redis_get_rejected)

lemma GET_hit:
  assumes "fst (redis_get USERS_CACHE_KEY w) = Inr (Some s)" and "s \<noteq> []"
  shows "GET rt w =
           (case JSON_parse rt s of None \<Rightarrow> fetch_failed | Some v \<Rightarrow> \<lparr>status = 200, body = v\<rparr>,
            w\<lparr>trace := trace w @ [(RedisGet USERS_CACHE_KEY, Resolved)]\<rparr>)"
proof -
  have ok: "\<not> rejects w (trace w) (RedisGet USERS_CACHE_KEY)"
    and v: "map_option fst (redis w USERS_CACHE_KEY) = Some s"
    using assms(1) by (simp_all add: probe_iff)
  from v obtain ttl where c: "redis w USERS_CACHE_KEY = Some (s, ttl)"
    by auto
  show ?thesis
  proof (cases "JSON_parse rt s")
    case None
    then show ?thesis
      using assms(2) c
      by (simp add: GET_def respond_def bind_io_def redis_get_resolved[OF ok] throw_def)
  next
    case (Some v)
    then show ?thesis
      using assms(2) c
      by (simp add: GET_def respond_def bind_io_def redis_get_resolved[OF ok] return_io_def)
  qed
qed

lemma cache_miss_cases:
  "cache_miss rt w =
     (if rejects w (trace w) PoolQuery
      then (Inl (CallFailed PoolQuery), w\<lparr>trace := trace w @ [(PoolQuery, Rejected)]\<rparr>)
      else if rejects w (trace w @ [(PoolQuery, Resolved)])
                (RedisSet USERS_CACHE_KEY (JSON_stringify rt (users_json (table w))) USERS_CACHE_TTL)
      then (Inl (CallFailed (RedisSet USERS_CACHE_KEY (JSON_stringify rt (users_json (table w))) USERS_CACHE_TTL)),
            w\<lparr>trace := trace w @ [(PoolQuery, Resolved),
                 (RedisSet USERS_CACHE_KEY (JSON_stringify rt (users_json (table w))) USERS_CACHE_TTL, Rejected)]\<rparr>)
      else (Inr \<lparr>status = 200, body = users_json (table w)\<rparr>,
            w\<lparr>trace := trace w @ [(PoolQuery, Resolved),
                 (RedisSet USERS_CACHE_KEY (JSON_stringify rt (users_json (table w))) USERS_CACHE_TTL, Resolved)],
              redis := (redis w)(USERS_CACHE_KEY \<mapsto>
                 (JSON_stringify rt (users_json (table w)), Some USERS_CACHE_TTL))\<rparr>))"
  by (simp add: cache_miss_def readUsers_def pool_query_def redis_set_def bind_io_def perform_def
      return_io_def)

lemma GET_miss:
  assumes "fst (redis_get USERS_CACHE_KEY w) = Inr r" and "r = None \<or> r = Some []"
  shows "GET rt w =
           respond (cache_miss rt) fetch_failed
             (w\<lparr>trace := trace w @ [(RedisGet USERS_CACHE_KEY, Resolved)]\<rparr>)"
proof -
  have ok: "\<not> rejects w (trace w) (RedisGet USERS_CACHE_KEY)"
    and v: "map_option fst (redis w USERS_CACHE_KEY) = r"
    using assms(1) by (simp_all add: probe_iff)
  show ?thesis
    using assms(2) v
    by (auto simp: GET_def respond_def bind_io_def redis_get_resolved[OF ok])
qed

lemma GET_hit_frame:
  assumes "fst (redis_get USERS_CACHE_KEY w) = Inr (Some s)"
    and "s \<noteq> []"
  shows "redis (snd (GET rt w)) = redis w
       \<and> events_since w (snd (GET rt w)) = [(RedisGet USERS_CACHE_KEY, Resolved)]"
  by (simp add: GET_hit[OF assms] events_since_def)

lemma GET_writes_only_on_miss:
  "(redis (snd (GET rt w)) \<noteq> redis w \<or>
    (\<exists>k v t out. (RedisSet k v t, out) \<in> set (events_since w (snd (GET rt w)))))
   \<longrightarrow> fst (redis_get USERS_CACHE_KEY w) = Inr None \<or> fst (redis_get USERS_CACHE_KEY w) = Inr (Some [])"
proof (cases "rejects w (trace w) (RedisGet USERS_CACHE_KEY)")
  case True
  then show ?thesis by (simp add: GET_rejected events_since_def)
next
  case False
  then have p: "fst (redis_get USERS_CACHE_KEY w) = Inr (map_option fst (redis w USERS_CACHE_KEY))"
    by (simp add: probe_iff)
  show ?thesis
  proof (cases "map_option fst (redis w USERS_CACHE_KEY)")
    case None
    then show ?thesis using p by simp
  next
    case (Some s)
    show ?thesis
    proof (cases "s = []")
      case True
      then show ?thesis using p Some by simp
    next
      case False
      have "fst (redis_get USERS_CACHE_KEY w) = Inr (Some s)" using p Some by simp
      from GET_hit[OF this False, of rt] show ?thesis by (simp add: events_since_def)
    qed
  qed
qed

lemma GET_miss_populates:
  assumes "redis w USERS_CACHE_KEY = None"
    and "accepted w [RedisGet USERS_CACHE_KEY, PoolQuery,
           RedisSet USERS_CACHE_KEY (JSON_stringify rt (users_json (table w))) USERS_CACHE_TTL]"
  shows "GET rt w =
           (\<lparr>status = 200, body = users_json (table w)\<rparr>,
            w\<lparr>trace := trace w @ [(RedisGet USERS_CACHE_KEY, Resolved), (PoolQuery, Resolved),
                 (RedisSet USERS_CACHE_KEY (JSON_stringify rt (users_json (table w))) USERS_CACHE_TTL, Resolved)],
              redis := (redis w)(USERS_CACHE_KEY \<mapsto>
                 (JSON_stringify rt (users_json (table w)), Some USERS_CACHE_TTL))\<rparr>)"
proof -
  have "fst (redis_get USERS_CACHE_KEY w) = Inr None"
    using assms by (simp add: probe_iff)
  from GET_miss[OF this, of rt] show ?thesis
    using assms(2) by (simp add: cache_miss_cases respond_def)
qed

subsection \<open>The write path\<close>

lemma POST_unparseable: "POST Unparseable w = (write_failed, w)"
  by (simp add: POST_def respond_def bind_io_def req_json_def throw_def)

lemma POST_parsed:
  "POST (Parsed b) w =
     (case writeUsers (normalize b) w of
        (Inl e, w1) \<Rightarrow> (write_failed, w1)
      | (Inr x, w1) \<Rightarrow>
          if rejects w1 (trace w1) (RedisDel USERS_CACHE_KEY)
          then (write_failed, w1\<lparr>trace := trace w1 @ [(RedisDel USERS_CACHE_KEY, Rejected)]\<rparr>)
          else (write_succeeded (length (normalize b)),
                w1\<lparr>trace := trace w1 @ [(RedisDel USERS_CACHE_KEY, Resolved)],
                   redis := (redis w1)(USERS_CACHE_KEY := None)\<rparr>))"
  by (simp add: POST_def respond_def bind_io_def req_json_def return_io_def redis_del_def
      perform_def write_succeeded_def Let_def split: prod.splits sum.splits)

lemma POST_failed:
  assumes "writeUsers (normalize b) w = (Inl e, w1)"
  shows "POST (Parsed b) w = (write_failed, w1)"
  using assms by (simp add: POST_parsed)

lemma POST_del_rejected:
  assumes "writeUsers (normalize b) w = (Inr (), w1)"
    and "rejects w1 (trace w1) (RedisDel USERS_CACHE_KEY)"
  shows "POST (Parsed b) w =
           (write_failed, w1\<lparr>trace := trace w1 @ [(RedisDel USERS_CACHE_KEY, Rejected)]\<rparr>)"
  using assms by (simp add: POST_parsed)

lemma POST_succeeded:
  assumes "writeUsers (normalize b) w = (Inr (), w1)"
    and "\<not> rejects w1 (trace w1) (RedisDel USERS_CACHE_KEY)"
  shows "POST (Parsed b) w =
           (write_succeeded (length (normalize b)),
            w1\<lparr>trace := trace w1 @ [(RedisDel USERS_CACHE_KEY, Resolved)],
               redis := (redis w1)(USERS_CACHE_KEY := None)\<rparr>)"
  using assms by (simp add: POST_parsed)

lemma status_write_failed: "status write_failed = 500"
  by (simp add: write_failed_def)

lemma status_fetch_failed: "status fetch_failed = 500"
  by (simp add: fetch_failed_def)

lemma POST_200:
  assumes "status (fst (POST req w)) = 200"
  obtains b w1 where "req = Parsed b" "writeUsers (normalize b) w = (Inr (), w1)"
    "\<not> rejects w1 (trace w1) (RedisDel USERS_CACHE_KEY)"
proof (cases req)
  case Unparseable
  then show ?thesis using assms by (simp add: POST_unparseable status_write_failed)
next
  case (Parsed b)
  obtain r w1 where run: "writeUsers (normalize b) w = (r, w1)"
    by (cases "writeUsers (normalize b) w")
  show ?thesis
  proof (cases r)
    case (Inl e)
    then show ?thesis using assms Parsed run by (simp add: POST_failed status_write_failed)
  next
    case (Inr x)
    then have run': "writeUsers (normalize b) w = (Inr (), w1)" using run by simp
    show ?thesis
    proof (cases "rejects w1 (trace w1) (RedisDel USERS_CACHE_KEY)")
      case True
      then show ?thesis
        using assms Parsed POST_del_rejected[OF run' True] by (simp add: status_write_failed)
    next
      case False
      then show ?thesis using that Parsed run' by blast
    qed
  qed
qed

lemma GET_200_after_miss:
  assumes "redis w USERS_CACHE_KEY = None" and "status (fst (GET rt w)) = 200"
  shows "redis (snd (GET rt w)) USERS_CACHE_KEY =
           Some (JSON_stringify rt (users_json (table w)), Some USERS_CACHE_TTL)"
proof (cases "rejects w (trace w) (RedisGet USERS_CACHE_KEY)")
  case True
  then show ?thesis using assms(2) by (simp add: GET_rejected status_fetch_failed)
next
  case False
  then have "fst (redis_get USERS_CACHE_KEY w) = Inr None"
    using assms(1) by (simp add: probe_iff)
  from GET_miss[OF this, of rt] show ?thesis
    using assms(2)
    by (simp add: cache_miss_cases respond_def status_fetch_failed split: if_splits)
qed

lemma upsert_all_accepting:
  assumes "\<forall>h c. \<not> rejects w h c"
  shows "fst (upsert_all us w) = Inr () \<and> rejects (snd (upsert_all us w)) = rejects w"
  using assms
proof (induction us arbitrary: w)
  case Nil
  then show ?case by (simp add: return_io_def)
next
  case (Cons u us)
  define w1 where "w1 = exec_stmt (Upsert u) (w\<lparr>trace := trace w @ [(ClientQuery (Upsert u), Resolved)]\<rparr>)"
  have r1: "rejects w1 = rejects w"
    by (simp add: w1_def split: option.splits)
  have "upsert_all (u # us) w = upsert_all us w1"
    using Cons.prems by (simp add: client_query_def bind_perform_resolved w1_def)
  moreover have "\<forall>h c. \<not> rejects w1 h c" using Cons.prems r1 by simp
  ultimately show ?case using Cons.IH[of w1] r1 by simp
qed

lemma writeUsers_accepting:
  assumes "\<forall>h c. \<not> rejects w h c"
  shows "fst (writeUsers us w) = Inr ()"
proof -
  define w1 where "w1 = (w\<lparr>trace := trace w @ [(PoolConnect, Resolved)]\<rparr>)\<lparr>txn := None\<rparr>"
  define w2 where "w2 = exec_stmt Begin (w1\<lparr>trace := trace w1 @ [(ClientQuery Begin, Resolved)]\<rparr>)"
  have a1: "\<forall>h c. \<not> rejects w1 h c" using assms by (simp add: w1_def)
  have a2: "\<forall>h c. \<not> rejects w2 h c" using a1 by (simp add: w2_def split: option.splits)
  obtain w3 where loop: "upsert_all us w2 = (Inr (), w3)" and a3: "rejects w3 = rejects w2"
    using upsert_all_accepting[OF a2, of us] by (cases "upsert_all us w2") auto
  have a3': "\<not> rejects w3 (trace w3) (ClientQuery Commit)" using a2 a3 by simp
  have "bind_io (client_query Begin) (\<lambda>_. bind_io (upsert_all us) (\<lambda>_. client_query Commit)) w1
          = bind_io (upsert_all us) (\<lambda>_. client_query Commit) w2"
    using a1 by (simp add: client_query_def[of Begin] bind_perform_resolved w2_def)
  also have "\<dots> = client_query Commit w3"
    using loop by (simp add: bind_io_def)
  finally have "bind_io (client_query Begin) (\<lambda>_. bind_io (upsert_all us) (\<lambda>_. client_query Commit)) w1
          = client_query Commit w3" .
  then have "fst (bind_io (client_query Begin) (\<lambda>_. bind_io (upsert_all us) (\<lambda>_. client_query Commit)) w1) = Inr ()"
    using a3' by (simp add: client_query_def perform_resolved)
  then obtain w4 where
    body: "bind_io (client_query Begin) (\<lambda>_. bind_io (upsert_all us) (\<lambda>_. client_query Commit)) w1 = (Inr (), w4)"
    by (cases "bind_io (client_query Begin) (\<lambda>_. bind_io (upsert_all us) (\<lambda>_. client_query Commit)) w1") auto
  have "writeUsers us w =
          try_finally
            (try_catch
              (bind_io (client_query Begin) (\<lambda>_. bind_io (upsert_all us) (\<lambda>_. client_query Commit)))
              (\<lambda>err. bind_io (client_query Rollback) (\<lambda>_. throw err)))
            client_release w1"
    using assms by (simp add: writeUsers_def pool_connect_def bind_perform_resolved w1_def)
  then show ?thesis
    using body by (simp add: try_finally_def try_catch_def)
qed

subsection \<open>Running the examples\<close>

lemmas run_defs =
  writeUsers_def bind_io_def try_finally_def try_catch_def throw_def return_io_def
  pool_connect_def client_query_def client_release_def perform_def
  redis_get_def redis_set_def redis_del_def pool_query_def readUsers_def
  respond_def req_json_def
  fresh_def failing_def stocked_def john_def john_updated_def jane_def nameless_def
  events_since_def releases_def lookup_def last_with_id_def

lemmas route_defs =
  run_defs POST_def GET_def cache_miss_def USERS_CACHE_KEY_def USERS_CACHE_TTL_def
  example_runtime_def john_text_def users_json_def user_json_def write_failed_def
  fetch_failed_def write_succeeded_def upsert_events_def warm_def stale_def

section \<open>The claims\<close>

subsection \<open>Reads that hit the cache\<close>

text \<open>
  C1. When the probe of the cache resolves to a snapshot that \<^verbatim>\<open>JSON.parse\<close> accepts,
  \<^verbatim>\<open>GET\<close> answers 200 with exactly the parsed snapshot, and the probe is the only call
  it makes: no call reaches the store, and the table is as before. (A snapshot that
  parses is not the empty string, the one string that \<^verbatim>\<open>if (cached)\<close> takes for
  absent.)
\<close>

theorem GET_cache_hit:
  assumes "fst (redis_get USERS_CACHE_KEY w) = Inr (Some s)"
    and "s \<noteq> []"
    and "JSON_parse rt s = Some v"
  shows "fst (GET rt w) = \<lparr>status = 200, body = v\<rparr>
       \<and> events_since w (snd (GET rt w)) = [(RedisGet USERS_CACHE_KEY, Resolved)]
       \<and> (\<forall>e \<in> set (events_since w (snd (GET rt w))). \<not> is_store_call (fst e))
       \<and> table (snd (GET rt w)) = table w"
  by (simp add: GET_hit[OF assms(1,2)] assms(3) events_since_def)

text \<open>A cache that holds the array with \<open>john\<close>: the answer is that array.\<close>

theorem GET_cache_hit_witness:
  "fst (redis_get USERS_CACHE_KEY warm) = Inr (Some john_text)
   \<and> john_text \<noteq> []
   \<and> JSON_parse example_runtime john_text = Some (users_json [john])
   \<and> fst (GET example_runtime warm) = \<lparr>status = 200, body = users_json [john]\<rparr>
   \<and> events_since warm (snd (GET example_runtime warm)) = [(RedisGet USERS_CACHE_KEY, Resolved)]
   \<and> table (snd (GET example_runtime warm)) = table warm"
proof -
  have h1: "fst (redis_get USERS_CACHE_KEY warm) = Inr (Some john_text)"
    by (simp add: route_defs)
  have h2: "john_text \<noteq> []"
    by (simp add: john_text_def)
  have h3: "JSON_parse example_runtime john_text = Some (users_json [john])"
    by (simp add: example_runtime_def john_text_def)
  from GET_cache_hit[OF h1 h2 h3] h1 h2 h3 show ?thesis by simp
qed

text \<open>
  C10. A read that hits the cache leaves the whole cache as it was, the value under the
  users key and its time-to-live included, and makes no call but the probe. Conversely,
  if \<^verbatim>\<open>GET\<close> changes the cache or issues a \<^verbatim>\<open>redis.set\<close> at all, the probe had
  resolved to \<^verbatim>\<open>null\<close> or to the empty string, which is the miss path.
\<close>

theorem GET_hit_leaves_cache_unchanged:
  "(fst (redis_get USERS_CACHE_KEY w) = Inr (Some s) \<and> s \<noteq> [] \<longrightarrow>
      redis (snd (GET rt w)) = redis w
    \<and> events_since w (snd (GET rt w)) = [(RedisGet USERS_CACHE_KEY, Resolved)])
   \<and> ((redis (snd (GET rt w)) \<noteq> redis w \<or>
        (\<exists>k v t out. (RedisSet k v t, out) \<in> set (events_since w (snd (GET rt w)))))
       \<longrightarrow> fst (redis_get USERS_CACHE_KEY w) = Inr None \<or>
           fst (redis_get USERS_CACHE_KEY w) = Inr (Some []))"
  using GET_hit_frame[of w s rt] GET_writes_only_on_miss[of rt w] by blast

text \<open>
  The snapshot with 17 seconds left keeps its 17 seconds after a hit; on an empty cache
  the read does write.
\<close>

theorem GET_hit_leaves_cache_unchanged_witness:
  "fst (redis_get USERS_CACHE_KEY warm) = Inr (Some john_text)
   \<and> john_text \<noteq> []
   \<and> redis (snd (GET example_runtime warm)) = redis warm
   \<and> redis (snd (GET example_runtime warm)) USERS_CACHE_KEY = Some (john_text, Some 17)
   \<and> events_since warm (snd (GET example_runtime warm)) = [(RedisGet USERS_CACHE_KEY, Resolved)]
   \<and> redis (snd (GET example_runtime stocked)) \<noteq> redis stocked
   \<and> fst (redis_get USERS_CACHE_KEY stocked) = Inr None"
proof -
  have h1: "fst (redis_get USERS_CACHE_KEY warm) = Inr (Some john_text)"
    by (simp add: route_defs)
  have h2: "john_text \<noteq> []"
    by (simp add: john_text_def)
  have c: "redis warm USERS_CACHE_KEY = Some (john_text, Some 17)"
    by (simp add: warm_def)
  have "redis (snd (GET example_runtime stocked)) USERS_CACHE_KEY \<noteq> redis stocked USERS_CACHE_KEY"
    by (simp add: route_defs)
  then have h3: "redis (snd (GET example_runtime stocked)) \<noteq> redis stocked"
    by auto
  from GET_hit_leaves_cache_unchanged[of warm john_text example_runtime]
       GET_hit_leaves_cache_unchanged[of stocked john_text example_runtime]
       h1 h2 h3 c
  show ?thesis by (simp add: route_defs)
qed

subsection \<open>Reads that miss the cache\<close>

text \<open>
  C6. With no entry under the users key, a table that holds the records \<open>R\<close>, and the
  three calls of the miss path resolving (the probe, the \<^verbatim>\<open>SELECT\<close>, the
  \<^verbatim>\<open>redis.set\<close>), \<^verbatim>\<open>GET\<close> answers 200 with \<open>R\<close>, and afterwards the cache holds
  \<^verbatim>\<open>JSON.stringify\<close> of \<open>R\<close> under the users key with 60 seconds to live. The table
  is as before.
\<close>

theorem GET_miss_then_populate:
  assumes "redis w USERS_CACHE_KEY = None"
    and "table w = R"
    and "accepted w [RedisGet USERS_CACHE_KEY, PoolQuery,
           RedisSet USERS_CACHE_KEY (JSON_stringify rt (users_json R)) USERS_CACHE_TTL]"
  shows "fst (GET rt w) = \<lparr>status = 200, body = users_json R\<rparr>
       \<and> redis (snd (GET rt w)) USERS_CACHE_KEY = Some (JSON_stringify rt (users_json R), Some 60)
       \<and> table (snd (GET rt w)) = R"
  using assms GET_miss_populates[of w rt] by (simp add: USERS_CACHE_TTL_def)

text \<open>End-to-end: the table holds \<open>john\<close>, the cache is empty.\<close>

theorem GET_miss_then_populate_witness:
  "redis stocked USERS_CACHE_KEY = None
   \<and> table stocked = [john]
   \<and> accepted stocked [RedisGet USERS_CACHE_KEY, PoolQuery,
        RedisSet USERS_CACHE_KEY (JSON_stringify example_runtime (users_json [john])) USERS_CACHE_TTL]
   \<and> fst (GET example_runtime stocked) = \<lparr>status = 200, body = users_json [john]\<rparr>
   \<and> redis (snd (GET example_runtime stocked)) USERS_CACHE_KEY = Some (john_text, Some 60)"
proof -
  have h1: "redis stocked USERS_CACHE_KEY = None" by (simp add: stocked_def fresh_def)
  have h2: "table stocked = [john]" by (simp add: stocked_def fresh_def)
  have h3: "accepted stocked [RedisGet USERS_CACHE_KEY, PoolQuery,
        RedisSet USERS_CACHE_KEY (JSON_stringify example_runtime (users_json [john])) USERS_CACHE_TTL]"
    by (simp add: stocked_def fresh_def)
  have h4: "JSON_stringify example_runtime (users_json [john]) = john_text"
    by (simp add: example_runtime_def users_json_def)
  from GET_miss_then_populate[OF h1 h2 h3] h1 h2 h3 h4 show ?thesis by simp
qed

text \<open>
  C8. With no entry under the users key, an empty table, and the three calls of the miss
  path resolving, \<^verbatim>\<open>GET\<close> answers 200 with the empty array, and afterwards the cache
  holds \<^verbatim>\<open>JSON.stringify\<close> of the empty array under the users key with 60 seconds to
  live.
\<close>

theorem GET_empty_collection:
  assumes "redis w USERS_CACHE_KEY = None"
    and "table w = []"
    and "accepted w [RedisGet USERS_CACHE_KEY, PoolQuery,
           RedisSet USERS_CACHE_KEY (JSON_stringify rt (JArr [])) USERS_CACHE_TTL]"
  shows "fst (GET rt w) = \<lparr>status = 200, body = JArr []\<rparr>
       \<and> redis (snd (GET rt w)) USERS_CACHE_KEY = Some (JSON_stringify rt (JArr []), Some 60)"
  using assms GET_miss_populates[of w rt] by (simp add: USERS_CACHE_TTL_def users_json_def)

text \<open>Nothing stored, nothing cached.\<close>

theorem GET_empty_collection_witness:
  "redis fresh USERS_CACHE_KEY = None
   \<and> table fresh = []
   \<and> accepted fresh [RedisGet USERS_CACHE_KEY, PoolQuery,
        RedisSet USERS_CACHE_KEY (JSON_stringify example_runtime (JArr [])) USERS_CACHE_TTL]
   \<and> fst (GET example_runtime fresh) = \<lparr>status = 200, body = JArr []\<rparr>
   \<and> redis (snd (GET example_runtime fresh)) USERS_CACHE_KEY = Some (''[]'', Some 60)"
proof -
  have h1: "redis fresh USERS_CACHE_KEY = None" by (simp add: fresh_def)
  have h2: "table fresh = []" by (simp add: fresh_def)
  have h3: "accepted fresh [RedisGet USERS_CACHE_KEY, PoolQuery,
        RedisSet USERS_CACHE_KEY (JSON_stringify example_runtime (JArr [])) USERS_CACHE_TTL]"
    by (simp add: fresh_def)
  have h4: "JSON_stringify example_runtime (JArr []) = ''[]''"
    by (simp add: example_runtime_def users_json_def john_def user_json_def)
  from GET_empty_collection[OF h1 h2 h3] h1 h2 h3 h4 show ?thesis by simp
qed

subsection \<open>Writes\<close>

text \<open>
  C2. If an upsert of the batch is rejected, \<^verbatim>\<open>writeUsers\<close> throws, \<^verbatim>\<open>ROLLBACK\<close> is
  issued and the committed table is what it was before the call, so that no record of
  the batch is visible. Once the pool has handed out a connection, the connection is
  released exactly once, as the last thing \<^verbatim>\<open>writeUsers\<close> does, whether the
  transaction committed or not. More generally the table is unchanged whenever
  \<^verbatim>\<open>writeUsers\<close> throws.
\<close>

theorem writeUsers_atomic_and_releases:
  assumes "writeUsers users w = (r, w')"
  shows "((\<exists>u. (ClientQuery (Upsert u), Rejected) \<in> set (events_since w w')) \<longrightarrow>
            (\<exists>e. r = Inl e) \<and> table w' = table w \<and>
            (\<exists>out. (ClientQuery Rollback, out) \<in> set (events_since w w')))
       \<and> (\<not> rejects w (trace w) PoolConnect \<longrightarrow>
            last (trace w') = (ClientRelease, Resolved) \<and> releases (events_since w w') = 1)
       \<and> ((\<exists>e. r = Inl e) \<longrightarrow> table w' = table w)"
proof -
  note F = writeUsers_fields[OF assms]
  from F consider
    (A) "r = Inl (CallFailed PoolConnect)" "rejects w (trace w) PoolConnect"
        "table w' = table w" "trace w' = trace w @ [(PoolConnect, Rejected)]"
  | (B) "r = Inr ()" "\<not> rejects w (trace w) PoolConnect"
        "trace w' = trace w @ (PoolConnect, Resolved) # (ClientQuery Begin, Resolved) #
                         upsert_events users @ [(ClientQuery Commit, Resolved), (ClientRelease, Resolved)]"
  | (C) e pre c out where "r = Inl e" "\<not> rejects w (trace w) PoolConnect"
        "table w' = table w" "failed_at users pre c"
        "trace w' = trace w @ (PoolConnect, Resolved) # pre @
                           [(c, Rejected), (ClientQuery Rollback, out), (ClientRelease, Resolved)]"
    by blast
  then show ?thesis
  proof cases
    case A
    then show ?thesis by (auto simp: events_since_def)
  next
    case B
    then show ?thesis
      by (auto simp: events_since_def upsert_events_resolved releases_Cons releases_append
          releases_upsert_events releases_Nil)
  next
    case C
    have "releases pre = 0" "c \<noteq> ClientRelease"
      using failed_at_releases[OF C(4)] by simp_all
    with C show ?thesis
      by (auto simp: events_since_def releases_Cons releases_append releases_Nil)
  qed
qed

text \<open>
  The second upsert of a batch of two is rejected: the first one is not visible
  afterwards (\<open>john\<close> keeps his row), and the connection is released.
\<close>

theorem writeUsers_atomic_and_releases_witness:
  "(ClientQuery (Upsert jane), Rejected)
      \<in> set (events_since (failing (ClientQuery (Upsert jane)))
                (snd (writeUsers [john_updated, jane] (failing (ClientQuery (Upsert jane))))))
   \<and> \<not> rejects (failing (ClientQuery (Upsert jane))) (trace (failing (ClientQuery (Upsert jane)))) PoolConnect
   \<and> fst (writeUsers [john_updated, jane] (failing (ClientQuery (Upsert jane))))
       = Inl (CallFailed (ClientQuery (Upsert jane)))
   \<and> table (snd (writeUsers [john_updated, jane] (failing (ClientQuery (Upsert jane))))) = [john]
   \<and> last (trace (snd (writeUsers [john_updated, jane] (failing (ClientQuery (Upsert jane))))))
       = (ClientRelease, Resolved)
   \<and> releases (events_since (failing (ClientQuery (Upsert jane)))
                (snd (writeUsers [john_updated, jane] (failing (ClientQuery (Upsert jane)))))) = 1"
  using writeUsers_atomic_and_releases
    [of "[john_updated, jane]" "failing (ClientQuery (Upsert jane))"
        "fst (writeUsers [john_updated, jane] (failing (ClientQuery (Upsert jane))))"
        "snd (writeUsers [john_updated, jane] (failing (ClientQuery (Upsert jane))))"]
  by (simp add: run_defs)

text \<open>
  C7. After a write that succeeds, the row found under an identifier of the batch is the
  last record of the batch with that identifier, with its name, email and age; the rows
  of the other identifiers are what they were. The upsert overwrites the row that is
  there and adds none beside it: on a table with one row for each identifier (the
  identifier is the primary key), the table after the write has again one row for each
  identifier, its identifiers are the old ones and those of the batch, and its rows are
  exactly the last occurrences of the batch and the old rows whose identifier the batch
  does not have.
\<close>

theorem writeUsers_last_occurrence_wins:
  assumes "writeUsers users w = (Inr (), w')"
  shows "lookup i (table w') =
           (case last_with_id i users of Some u \<Rightarrow> Some u | None \<Rightarrow> lookup i (table w))
       \<and> (distinct (map id' (table w)) \<longrightarrow>
            distinct (map id' (table w'))
          \<and> id' ` set (table w') = id' ` set (table w) \<union> id' ` set users
          \<and> (\<forall>r. r \<in> set (table w') \<longleftrightarrow>
                 last_with_id (id' r) users = Some r \<or>
                 (last_with_id (id' r) users = None \<and> r \<in> set (table w))))"
proof -
  have t: "table w' = fold upsert users (table w)"
    using writeUsers_fields[OF assms] by auto
  have ids: "id' ` set (fold upsert us rows) = id' ` set rows \<union> id' ` set us" for us rows
    by (induction us arbitrary: rows) (auto simp: ids_upsert)
  show ?thesis
    using rows_fold_upsert[of "table w" _ users]
    by (simp add: t lookup_fold_upsert distinct_fold_upsert ids)
qed

text \<open>
  A batch with the identifier \<open>''1''\<close> twice, on a table that has a row for it: the
  old row is gone, the last occurrence is stored in its place, and there are two rows.
\<close>

theorem writeUsers_last_occurrence_wins_witness:
  "fst (writeUsers [jane, john, john_updated] stocked) = Inr ()
   \<and> table stocked = [john]
   \<and> distinct (map id' (table stocked))
   \<and> last_with_id ''1'' [jane, john, john_updated] = Some john_updated
   \<and> lookup ''1'' (table (snd (writeUsers [jane, john, john_updated] stocked))) = Some john_updated
   \<and> lookup ''2'' (table (snd (writeUsers [jane, john, john_updated] stocked))) = Some jane
   \<and> distinct (map id' (table (snd (writeUsers [jane, john, john_updated] stocked))))
   \<and> table (snd (writeUsers [jane, john, john_updated] stocked)) = [john_updated, jane]
   \<and> john \<notin> set (table (snd (writeUsers [jane, john, john_updated] stocked)))"
proof -
  have h0: "fst (writeUsers [jane, john, john_updated] stocked) = Inr ()"
    by (simp add: run_defs)
  then have run: "writeUsers [jane, john, john_updated] stocked =
     (Inr (), snd (writeUsers [jane, john, john_updated] stocked))"
    by (simp add: prod_eq_iff)
  have d: "distinct (map id' (table stocked))"
    by (simp add: run_defs)
  have t: "table (snd (writeUsers [jane, john, john_updated] stocked)) = [john_updated, jane]"
    by (simp add: run_defs)
  show ?thesis
    using writeUsers_last_occurrence_wins[OF run, of "''1''"]
          writeUsers_last_occurrence_wins[OF run, of "''2''"] h0 d t
    by (simp add: run_defs)
qed

text \<open>
  C9. A write that answers 200 reports the length of the normalised input as its count.
  A single record and the array of that one record are the same request: the response
  and the resulting state are equal, and the count of a successful one is 1.
\<close>

theorem POST_count_is_input_length:
  "(status (fst (POST (Parsed b) w)) = 200 \<longrightarrow>
      body (fst (POST (Parsed b) w)) =
        JObj [(''success'', JBool True), (''count'', JNum (int (length (normalize b))))])
   \<and> POST (Parsed (Single u)) w = POST (Parsed (Batch [u])) w
   \<and> (status (fst (POST (Parsed (Single u)) w)) = 200 \<longrightarrow>
      body (fst (POST (Parsed (Single u)) w)) = JObj [(''success'', JBool True), (''count'', JNum 1)])"
proof -
  have count: "status (fst (POST (Parsed b') w)) = 200 \<longrightarrow>
      body (fst (POST (Parsed b') w)) =
        JObj [(''success'', JBool True), (''count'', JNum (int (length (normalize b'))))]" for b'
  proof
    assume "status (fst (POST (Parsed b') w)) = 200"
    then obtain b0 w1 where req: "Parsed b' = Parsed b0"
      and run: "writeUsers (normalize b0) w = (Inr (), w1)"
      and del: "\<not> rejects w1 (trace w1) (RedisDel USERS_CACHE_KEY)"
      by (rule POST_200)
    from req have "b0 = b'" by simp
    with POST_succeeded[OF run del]
    show "body (fst (POST (Parsed b') w)) =
        JObj [(''success'', JBool True), (''count'', JNum (int (length (normalize b'))))]"
      by (simp add: write_succeeded_def)
  qed
  have same: "POST (Parsed (Single u)) w = POST (Parsed (Batch [u])) w"
  proof -
    obtain r w1 where run: "writeUsers [u] w = (r, w1)"
      by (cases "writeUsers [u] w")
    show ?thesis by (cases r) (auto simp: POST_parsed run)
  qed
  from count[of b] count[of "Single u"] same show ?thesis by simp
qed

text \<open>
  A batch with the same identifier twice is counted as 2 and leaves one row; a single
  record and its one-element array behave alike.
\<close>

theorem POST_count_is_input_length_witness:
  "status (fst (POST (Parsed (Batch [john, john_updated])) fresh)) = 200
   \<and> body (fst (POST (Parsed (Batch [john, john_updated])) fresh)) =
       JObj [(''success'', JBool True), (''count'', JNum 2)]
   \<and> table (snd (POST (Parsed (Batch [john, john_updated])) fresh)) = [john_updated]
   \<and> POST (Parsed (Single jane)) fresh = POST (Parsed (Batch [jane])) fresh
   \<and> status (fst (POST (Parsed (Single jane)) fresh)) = 200
   \<and> body (fst (POST (Parsed (Single jane)) fresh)) =
       JObj [(''success'', JBool True), (''count'', JNum 1)]"
proof -
  have h1: "status (fst (POST (Parsed (Batch [john, john_updated])) fresh)) = 200"
    by (simp add: route_defs)
  have h2: "status (fst (POST (Parsed (Single jane)) fresh)) = 200"
    by (simp add: route_defs)
  have t: "table (snd (POST (Parsed (Batch [john, john_updated])) fresh)) = [john_updated]"
    by (simp add: route_defs)
  from POST_count_is_input_length[of "Batch [john, john_updated]" fresh jane]
    POST_count_is_input_length[of "Single jane" fresh jane] h1 h2 t
  show ?thesis by simp
qed

text \<open>
  C5. After a write that answers 200 (the transaction committed and \<^verbatim>\<open>redis.del\<close>
  resolved), there is no entry under the users key: a probe that resolves gives
  \<^verbatim>\<open>null\<close>. A following \<^verbatim>\<open>GET\<close> that answers 200 puts the serialised table back
  under the key, with 60 seconds to live.
\<close>

theorem POST_invalidates_cache:
  assumes "status (fst (POST req w)) = 200"
  shows "(ClientQuery Commit, Resolved) \<in> set (events_since w (snd (POST req w)))
       \<and> (RedisDel USERS_CACHE_KEY, Resolved) \<in> set (events_since w (snd (POST req w)))
       \<and> redis (snd (POST req w)) USERS_CACHE_KEY = None
       \<and> (\<forall>r. fst (redis_get USERS_CACHE_KEY (snd (POST req w))) = Inr r \<longrightarrow> r = None)
       \<and> (status (fst (GET rt (snd (POST req w)))) = 200 \<longrightarrow>
            redis (snd (GET rt (snd (POST req w)))) USERS_CACHE_KEY =
              Some (JSON_stringify rt (users_json (table (snd (POST req w)))), Some 60))"
proof -
  from assms obtain b w1 where req: "req = Parsed b"
    and run: "writeUsers (normalize b) w = (Inr (), w1)"
    and del: "\<not> rejects w1 (trace w1) (RedisDel USERS_CACHE_KEY)"
    by (rule POST_200)
  from writeUsers_fields[OF run]
  have t1: "trace w1 = trace w @ (PoolConnect, Resolved) # (ClientQuery Begin, Resolved) #
              upsert_events (normalize b) @ [(ClientQuery Commit, Resolved), (ClientRelease, Resolved)]"
    by auto
  have events: "(ClientQuery Commit, Resolved) \<in> set (events_since w (snd (POST req w)))
       \<and> (RedisDel USERS_CACHE_KEY, Resolved) \<in> set (events_since w (snd (POST req w)))"
    by (simp add: req POST_succeeded[OF run del] t1 events_since_def)
  have absent: "redis (snd (POST req w)) USERS_CACHE_KEY = None"
    by (simp add: req POST_succeeded[OF run del])
  have probe: "\<forall>r. fst (redis_get USERS_CACHE_KEY (snd (POST req w))) = Inr r \<longrightarrow> r = None"
    using absent by (auto simp: probe_iff)
  have again: "status (fst (GET rt (snd (POST req w)))) = 200 \<longrightarrow>
            redis (snd (GET rt (snd (POST req w)))) USERS_CACHE_KEY =
              Some (JSON_stringify rt (users_json (table (snd (POST req w)))), Some 60)"
    using GET_200_after_miss[OF absent, of rt] by (simp add: USERS_CACHE_TTL_def)
  from events absent probe again show ?thesis by blast
qed

text \<open>
  The table is empty and the cache holds a snapshot of it. \<open>john\<close> is written: the
  snapshot is gone, and the read after the write caches the array with \<open>john\<close>.
\<close>

theorem POST_invalidates_cache_witness:
  "status (fst (POST (Parsed (Single john)) stale)) = 200
   \<and> redis stale USERS_CACHE_KEY = Some (''[]'', Some 17)
   \<and> redis (snd (POST (Parsed (Single john)) stale)) USERS_CACHE_KEY = None
   \<and> fst (redis_get USERS_CACHE_KEY (snd (POST (Parsed (Single john)) stale))) = Inr None
   \<and> status (fst (GET example_runtime (snd (POST (Parsed (Single john)) stale)))) = 200
   \<and> redis (snd (GET example_runtime (snd (POST (Parsed (Single john)) stale)))) USERS_CACHE_KEY =
       Some (john_text, Some 60)"
proof -
  have h: "status (fst (POST (Parsed (Single john)) stale)) = 200"
    by (simp add: route_defs)
  have g: "status (fst (GET example_runtime (snd (POST (Parsed (Single john)) stale)))) = 200"
    by (simp add: route_defs)
  have t: "table (snd (POST (Parsed (Single john)) stale)) = [john]"
    by (simp add: route_defs)
  have p: "fst (redis_get USERS_CACHE_KEY (snd (POST (Parsed (Single john)) stale))) = Inr None"
    by (simp add: route_defs)
  have c: "redis stale USERS_CACHE_KEY = Some (''[]'', Some 17)"
    by (simp add: stale_def)
  have s: "JSON_stringify example_runtime (users_json [john]) = john_text"
    by (simp add: example_runtime_def users_json_def)
  from POST_invalidates_cache[OF h, of example_runtime] h g t p c s show ?thesis by simp
qed

subsection \<open>Writes whose invalidation fails\<close>

text \<open>
  C3 does not hold as stated. \<^verbatim>\<open>redis.del\<close> is awaited inside the \<^verbatim>\<open>try\<close> of
  \<^verbatim>\<open>POST\<close>, so its rejection goes to the \<^verbatim>\<open>catch\<close>. Here the transaction commits,
  \<open>jane\<close> is stored, \<^verbatim>\<open>redis.del\<close> is rejected, and the answer is the 500 of a failed
  write, not the success payload with count 1.
\<close>

theorem POST_invalidation_failure_counterexample:
  "fst (writeUsers [jane] (failing (RedisDel USERS_CACHE_KEY))) = Inr ()
   \<and> (ClientQuery Commit, Resolved)
        \<in> set (trace (snd (POST (Parsed (Single jane)) (failing (RedisDel USERS_CACHE_KEY)))))
   \<and> (RedisDel USERS_CACHE_KEY, Rejected)
        \<in> set (trace (snd (POST (Parsed (Single jane)) (failing (RedisDel USERS_CACHE_KEY)))))
   \<and> table (snd (POST (Parsed (Single jane)) (failing (RedisDel USERS_CACHE_KEY)))) = [john, jane]
   \<and> fst (POST (Parsed (Single jane)) (failing (RedisDel USERS_CACHE_KEY))) =
       \<lparr>status = 500, body = JObj [(''error'', JStr ''Failed to write users'')]\<rparr>
   \<and> fst (POST (Parsed (Single jane)) (failing (RedisDel USERS_CACHE_KEY))) \<noteq>
       \<lparr>status = 200, body = JObj [(''success'', JBool True), (''count'', JNum 1)]\<rparr>"
  by (simp add: route_defs)

text \<open>
  C3, amended. When the transaction of a write commits and the \<^verbatim>\<open>redis.del\<close> after it
  is rejected, \<^verbatim>\<open>POST\<close> answers with the generic write failure (status 500,
  \<^verbatim>\<open>Failed to write users\<close>). The batch stays committed in the table, and the cache
  is left as it was.
\<close>

theorem POST_invalidation_failure_fails_the_write:
  assumes "writeUsers (normalize b) w = (Inr (), w1)"
    and "rejects w1 (trace w1) (RedisDel USERS_CACHE_KEY)"
  shows "fst (POST (Parsed b) w) = write_failed
       \<and> table (snd (POST (Parsed b) w)) = fold upsert (normalize b) (table w)
       \<and> redis (snd (POST (Parsed b) w)) = redis w
       \<and> (ClientQuery Commit, Resolved) \<in> set (events_since w (snd (POST (Parsed b) w)))
       \<and> (RedisDel USERS_CACHE_KEY, Rejected) \<in> set (events_since w (snd (POST (Parsed b) w)))"
proof -
  from writeUsers_fields[OF assms(1)]
  have "redis w1 = redis w" and "table w1 = fold upsert (normalize b) (table w)"
    and "trace w1 = trace w @ (PoolConnect, Resolved) # (ClientQuery Begin, Resolved) #
                         upsert_events (normalize b) @ [(ClientQuery Commit, Resolved), (ClientRelease, Resolved)]"
    by auto
  then show ?thesis
    by (simp add: POST_del_rejected[OF assms] events_since_def)
qed

text \<open>A batch of two is committed and reported as failed.\<close>

theorem POST_invalidation_failure_fails_the_write_witness:
  "fst (writeUsers (normalize (Batch [john_updated, jane])) (failing (RedisDel USERS_CACHE_KEY))) = Inr ()
   \<and> rejects (snd (writeUsers (normalize (Batch [john_updated, jane])) (failing (RedisDel USERS_CACHE_KEY))))
        (trace (snd (writeUsers (normalize (Batch [john_updated, jane])) (failing (RedisDel USERS_CACHE_KEY)))))
        (RedisDel USERS_CACHE_KEY)
   \<and> fst (POST (Parsed (Batch [john_updated, jane])) (failing (RedisDel USERS_CACHE_KEY))) = write_failed
   \<and> table (snd (POST (Parsed (Batch [john_updated, jane])) (failing (RedisDel USERS_CACHE_KEY))))
       = [john_updated, jane]"
proof -
  have h0: "fst (writeUsers (normalize (Batch [john_updated, jane])) (failing (RedisDel USERS_CACHE_KEY))) = Inr ()"
    by (simp add: route_defs)
  then have h1: "writeUsers (normalize (Batch [john_updated, jane])) (failing (RedisDel USERS_CACHE_KEY)) =
      (Inr (), snd (writeUsers (normalize (Batch [john_updated, jane])) (failing (RedisDel USERS_CACHE_KEY))))"
    by (simp add: prod_eq_iff)
  have h2: "rejects (snd (writeUsers (normalize (Batch [john_updated, jane])) (failing (RedisDel USERS_CACHE_KEY))))
        (trace (snd (writeUsers (normalize (Batch [john_updated, jane])) (failing (RedisDel USERS_CACHE_KEY)))))
        (RedisDel USERS_CACHE_KEY)"
    by (simp add: route_defs)
  have t: "fold upsert (normalize (Batch [john_updated, jane])) (table (failing (RedisDel USERS_CACHE_KEY)))
       = [john_updated, jane]"
    by (simp add: route_defs)
  from POST_invalidation_failure_fails_the_write[OF h1 h2] h0 h2 t show ?thesis by simp
qed

subsection \<open>Writes of empty batches and of empty identifiers\<close>

text \<open>
  C4 does not hold as stated. \<^verbatim>\<open>POST\<close> does not look at the records before it calls
  \<^verbatim>\<open>writeUsers\<close>. An empty array runs an empty transaction and is answered with 200
  and count 0; a record with an empty identifier is sent to the store as an upsert like
  any other.
\<close>

theorem POST_validation_counterexample:
  "fst (POST (Parsed (Batch [])) fresh) =
      \<lparr>status = 200, body = JObj [(''success'', JBool True), (''count'', JNum 0)]\<rparr>
   \<and> trace (snd (POST (Parsed (Batch [])) fresh)) =
      [(PoolConnect, Resolved), (ClientQuery Begin, Resolved), (ClientQuery Commit, Resolved),
       (ClientRelease, Resolved), (RedisDel USERS_CACHE_KEY, Resolved)]
   \<and> id' nameless = []
   \<and> fst (POST (Parsed (Batch [jane, nameless])) fresh) =
      \<lparr>status = 200, body = JObj [(''success'', JBool True), (''count'', JNum 2)]\<rparr>
   \<and> trace (snd (POST (Parsed (Batch [jane, nameless])) fresh)) =
      [(PoolConnect, Resolved), (ClientQuery Begin, Resolved),
       (ClientQuery (Upsert jane), Resolved), (ClientQuery (Upsert nameless), Resolved),
       (ClientQuery Commit, Resolved), (ClientRelease, Resolved),
       (RedisDel USERS_CACHE_KEY, Resolved)]
   \<and> table (snd (POST (Parsed (Batch [jane, nameless])) fresh)) = [jane, nameless]"
  by (simp add: route_defs)

text \<open>
  C4, amended. A body that \<^verbatim>\<open>req.json()\<close> cannot parse fails before any persistence
  attempt: the answer is the write failure and no call is made. A body that is a user
  object or an array of user objects is not checked, be the array empty or the
  identifier of a record empty: the first thing \<^verbatim>\<open>POST\<close> does with it is to ask the
  pool for a connection; and when the store and the cache reject no call, the write
  answers 200 with the length of the input, having issued \<^verbatim>\<open>BEGIN\<close>, one upsert for
  each record and \<^verbatim>\<open>COMMIT\<close>. (Bodies of another shape, such as \<^verbatim>\<open>null\<close>, are not
  values of \<open>payload\<close>, and nothing is stated about them.)
\<close>

theorem POST_does_not_validate:
  "POST Unparseable w = (write_failed, w)
   \<and> (\<exists>out evs. events_since w (snd (POST (Parsed b) w)) = (PoolConnect, out) # evs)
   \<and> ((\<forall>h c. \<not> rejects w h c) \<longrightarrow>
        fst (POST (Parsed b) w) =
          \<lparr>status = 200,
           body = JObj [(''success'', JBool True), (''count'', JNum (int (length (normalize b))))]\<rparr>
      \<and> events_since w (snd (POST (Parsed b) w)) =
          (PoolConnect, Resolved) # (ClientQuery Begin, Resolved) # upsert_events (normalize b) @
          [(ClientQuery Commit, Resolved), (ClientRelease, Resolved),
           (RedisDel USERS_CACHE_KEY, Resolved)])"
proof -
  obtain r w1 where run: "writeUsers (normalize b) w = (r, w1)"
    by (cases "writeUsers (normalize b) w")
  note F = writeUsers_fields[OF run]
  have first: "\<exists>out evs. events_since w (snd (POST (Parsed b) w)) = (PoolConnect, out) # evs"
  proof -
    from F obtain out evs where t1: "trace w1 = trace w @ (PoolConnect, out) # evs"
      by auto
    show ?thesis
      using t1 run by (cases r) (auto simp: POST_parsed events_since_def)
  qed
  have ok: "fst (POST (Parsed b) w) =
          \<lparr>status = 200,
           body = JObj [(''success'', JBool True), (''count'', JNum (int (length (normalize b))))]\<rparr>
      \<and> events_since w (snd (POST (Parsed b) w)) =
          (PoolConnect, Resolved) # (ClientQuery Begin, Resolved) # upsert_events (normalize b) @
          [(ClientQuery Commit, Resolved), (ClientRelease, Resolved),
           (RedisDel USERS_CACHE_KEY, Resolved)]"
    if acc: "\<forall>h c. \<not> rejects w h c"
  proof -
    have r: "r = Inr ()" using writeUsers_accepting[OF acc, of "normalize b"] run by simp
    with F have t1: "trace w1 = trace w @ (PoolConnect, Resolved) # (ClientQuery Begin, Resolved) #
                         upsert_events (normalize b) @ [(ClientQuery Commit, Resolved), (ClientRelease, Resolved)]"
      and r1: "rejects w1 = rejects w"
      by auto
    have del: "\<not> rejects w1 (trace w1) (RedisDel USERS_CACHE_KEY)" using acc r1 by simp
    from run r have run': "writeUsers (normalize b) w = (Inr (), w1)" by simp
    show ?thesis
      by (simp add: POST_succeeded[OF run' del] write_succeeded_def t1 events_since_def)
  qed
  from first ok show ?thesis by (simp add: POST_unparseable)
qed

text \<open>A record with an empty identifier, on collaborators that accept every call.\<close>

theorem POST_does_not_validate_witness:
  "POST Unparseable fresh = (write_failed, fresh)
   \<and> hd (events_since fresh (snd (POST (Parsed (Single nameless)) fresh))) = (PoolConnect, Resolved)
   \<and> rejects fresh = (\<lambda>h c. False)
   \<and> fst (POST (Parsed (Single nameless)) fresh) =
        \<lparr>status = 200, body = JObj [(''success'', JBool True), (''count'', JNum 1)]\<rparr>
   \<and> events_since fresh (snd (POST (Parsed (Single nameless)) fresh)) =
        [(PoolConnect, Resolved), (ClientQuery Begin, Resolved),
         (ClientQuery (Upsert nameless), Resolved),
         (ClientQuery Commit, Resolved), (ClientRelease, Resolved),
         (RedisDel USERS_CACHE_KEY, Resolved)]"
proof -
  have h: "\<forall>h c. \<not> rejects fresh h c" by (simp add: fresh_def)
  have r: "rejects fresh = (\<lambda>h c. False)" by (simp add: fresh_def)
  from POST_does_not_validate[of fresh "Single nameless"] h r show ?thesis
    by (simp add: upsert_events_def)
qed

end
